theory Spec2Isabelle
  imports Complex_Main "HOL-Library.Word"
begin

section \<open>Finite-difference Hessian and covariance (covmatrix.py)\<close>

text \<open>
  The module computes the Hessian of a scalar function by central finite differences
  (\<^verbatim>\<open>calc_hess\<close>, with the stencils \<^verbatim>\<open>calc_partial_ii\<close> and \<^verbatim>\<open>calc_partial_ij\<close>) and the
  covariance matrix \<^verbatim>\<open>-inv(hess)\<close> (\<^verbatim>\<open>calc_cov\<close>).

  Conventions of the embedding.
  \<^item> A float64 is a \<^typ>\<open>real\<close>: rounding, overflow, infinities and NaN are outside the
    model, with one exception. The division \<^verbatim>\<open>num/denom\<close> that ends each stencil is
    Python's true division as it is dispatched on its operands (\<open>truediv\<close>): by a nonzero
    denominator it is the quotient; by a zero denominator it raises
    \<^verbatim>\<open>ZeroDivisionError\<close> when both operands are Python numbers, and when a numpy scalar
    is among them it warns and yields inf or nan, the outcome \<open>NonFinite\<close>. Inside
    \<^verbatim>\<open>calc_hess\<close> the steps are elements of an array, numpy scalars, so the division never
    raises there. The matrix holds reals: a non-finite entry is stored as \<open>0\<close>, the value
    of HOL's \<open>x / 0\<close> (\<open>stored\<close>).
  \<^item> A step size reaches a stencil as a float (a Python number or a float64) or as a
    numpy int64, the element of an integer sequence, which \<^verbatim>\<open>array(h, ndmin=1, copy=False)\<close>
    keeps as it is. \<^verbatim>\<open>h**2\<close> on an int64 is computed in int64 and wraps.
  \<^item> numpy arrays are mutable and passed by reference, so one-dimensional arrays live in
    a store: a list of arrays, an array's address being its position. Allocation
    appends. The point \<^verbatim>\<open>x\<close> is the address of an existing one-dimensional float array,
    which \<^verbatim>\<open>array(x, ndmin=1, copy=False)\<close> returns as it is, without copying.
  \<^item> The step sizes \<^verbatim>\<open>h\<close> are only ever read, so they are passed by value: a scalar, a
    sequence of floats or a sequence of int64.
  \<^item> The objective function is a pure, total function of the contents of the array it
    is handed (an objective function that raises is outside the model). Every call is
    logged: \<open>calls\<close> lists the points at which the function has been evaluated, oldest
    first.
  \<^item> A raised exception is an \<open>Inl\<close> result, returned with the store as it was at the
    raise.
  \<^item> \<^verbatim>\<open>numpy.linalg.inv\<close> is not part of the repository: it is a parameter \<open>linv\<close>, which
    returns a matrix or raises.
  \<^item> The loops \<^verbatim>\<open>for i in range(ndim)\<close> and \<^verbatim>\<open>for j in range(i, ndim)\<close> are recursions
    over the index lists \<open>[0..<ndim]\<close> and \<open>[i..<ndim]\<close>. An index \<open>i\<close> is a natural number;
    \<^verbatim>\<open>x[i]\<close> out of range raises \<open>IndexError\<close>. \<^verbatim>\<open>h[i]\<close> is read with \<open>h ! i\<close>: the loops
    run after the normaliser, which returns \<open>h\<close> with one entry per dimension.
\<close>

subsection \<open>Store, errors, arguments\<close>

type_synonym addr = nat
type_synonym matrix = "real list list"
type_synonym objective = "real list \<Rightarrow> real"

record world =
  heap :: "real list list"
  calls :: "real list list"

datatype error =
  ValueError nat nat  \<comment> \<open>\<^verbatim>\<open>"h and x have different dimensions: %d %d" % (h.size, x.size)\<close>\<close>
| IndexError
| LinAlgError
| ZeroDivisionError

datatype step_arg = HScalar real | HArray "real list" | HInt64Array "64 word list"

datatype step = Float real | Int64 "64 word"

definition step_val :: "step \<Rightarrow> real" where
  \<comment> \<open>the step as a number of a float expression such as \<^verbatim>\<open>xin[i] + h\<close> or \<^verbatim>\<open>4.*h*k\<close>\<close>
  "step_val h = (case h of Float r \<Rightarrow> r | Int64 n \<Rightarrow> real_of_int (sint n))"

definition step_sq :: "step \<Rightarrow> step" where
  \<comment> \<open>\<^verbatim>\<open>h**2\<close>, in the type of \<open>h\<close>\<close>
  "step_sq h = (case h of Float r \<Rightarrow> Float (r ^ 2) | Int64 n \<Rightarrow> Int64 (n * n))"

datatype operands = PythonNumbers | NumpyScalars

datatype fval = Finite real | NonFinite

definition truediv :: "operands \<Rightarrow> real \<Rightarrow> real \<Rightarrow> error + fval" where
  \<comment> \<open>\<^verbatim>\<open>num/denom\<close>\<close>
  "truediv ops num denom =
     (if denom \<noteq> 0 then Inr (Finite (num / denom))
      else case ops of
             PythonNumbers \<Rightarrow> Inl ZeroDivisionError
           | NumpyScalars \<Rightarrow> Inr NonFinite)"

definition dispatch :: "operands \<Rightarrow> step \<Rightarrow> operands" where
  \<comment> \<open>an int64 step is a numpy scalar: a division it enters is numpy's\<close>
  "dispatch ops h = (case h of Float r \<Rightarrow> ops | Int64 n \<Rightarrow> NumpyScalars)"

definition stored :: "fval \<Rightarrow> real" where
  "stored v = (case v of Finite r \<Rightarrow> r | NonFinite \<Rightarrow> 0)"

definition copy :: "addr \<Rightarrow> world \<Rightarrow> addr \<times> world" where
  \<comment> \<open>\<^verbatim>\<open>xin.copy()\<close>: a fresh array with the same contents\<close>
  "copy a w = (length (heap w), w\<lparr>heap := heap w @ [heap w ! a]\<rparr>)"

definition aget :: "world \<Rightarrow> addr \<Rightarrow> nat \<Rightarrow> real" where
  "aget w a i = heap w ! a ! i"

definition aset :: "addr \<Rightarrow> nat \<Rightarrow> real \<Rightarrow> world \<Rightarrow> world" where
  \<comment> \<open>\<^verbatim>\<open>a[i] = v\<close>, in place\<close>
  "aset a i v w = w\<lparr>heap := (heap w)[a := (heap w ! a)[i := v]]\<rparr>"

definition call :: "objective \<Rightarrow> addr \<Rightarrow> world \<Rightarrow> real \<times> world" where
  \<comment> \<open>\<^verbatim>\<open>func(a)\<close>: the value at the array's current contents; the call is logged\<close>
  "call func a w = (func (heap w ! a), w\<lparr>calls := calls w @ [heap w ! a]\<rparr>)"

subsection \<open>The stencils\<close>

text \<open>
  \<open>ops\<close> says how the final division is dispatched: \<open>PythonNumbers\<close> when the values of
  \<open>func\<close> and the steps are all Python numbers, \<open>NumpyScalars\<close> when a numpy scalar is
  among them (as it is whenever a step is an int64). The division is the last statement
  before the return, so its exception leaves the store as the three (or four)
  evaluations left it.
\<close>

definition calc_partial_ii ::
  "operands \<Rightarrow> objective \<Rightarrow> addr \<Rightarrow> nat \<Rightarrow> step \<Rightarrow> world \<Rightarrow> (error + fval) \<times> world" where
  "calc_partial_ii ops func xin i h w =
     (let (x, w0) = copy xin w in
      if \<not> i < length (heap w0 ! xin) then (Inl IndexError, w0)
      else
        let w1 = aset x i (aget w0 xin i + step_val h) w0;
            (f1, w2) = call func x w1;
            (f2, w3) = call func xin w2;
            w4 = aset x i (aget w3 xin i - step_val h) w3;
            (f3, w5) = call func x w4;
            num = f1 - 2 * f2 + f3;
            denom = step_sq h;
            deriv = truediv (dispatch ops h) num (step_val denom)
        in (deriv, w5))"

definition calc_partial_ij ::
  "operands \<Rightarrow> objective \<Rightarrow> addr \<Rightarrow> nat \<Rightarrow> nat \<Rightarrow> step \<Rightarrow> step \<Rightarrow> world
     \<Rightarrow> (error + fval) \<times> world" where
  "calc_partial_ij ops func xin i j h k w =
     (let (x, w0) = copy xin w in
      if \<not> i < length (heap w0 ! xin) then (Inl IndexError, w0)
      else
        let w1 = aset x i (aget w0 xin i + step_val h) w0 in
        if \<not> j < length (heap w1 ! xin) then (Inl IndexError, w1)
        else
          let w2 = aset x j (aget w1 xin j + step_val k) w1;
              (f1, w3) = call func x w2;
              w4 = aset x j (aget w3 xin j - step_val k) w3;
              (f2, w5) = call func x w4;
              w6 = aset x i (aget w5 xin i - step_val h) w5;
              w7 = aset x j (aget w6 xin j + step_val k) w6;
              (f3, w8) = call func x w7;
              w9 = aset x j (aget w8 xin j - step_val k) w8;
              (f4, w10) = call func x w9;
              num = f1 - f2 - f3 + f4;
              denom = 4 * step_val h * step_val k;
              deriv = truediv (dispatch (dispatch ops h) k) num denom
          in (deriv, w10))"

subsection \<open>Input normalisation\<close>

definition get_x_and_h :: "addr \<Rightarrow> step_arg \<Rightarrow> world \<Rightarrow> error + (addr \<times> step list)" where
  \<comment> \<open>\<^verbatim>\<open>_get_x_and_h\<close>; it reads the store and does not change it. The scalar branch
     \<^verbatim>\<open>zeros(ndim) + h\<close> always gives floats; the sequence branch keeps the element type.\<close>
  "get_x_and_h x h w =
     (let ndim = length (heap w ! x) in
      case h of
        HScalar s \<Rightarrow> Inr (x, map (\<lambda>z. Float (z + s)) (replicate ndim 0))
      | HArray hs \<Rightarrow>
          if length hs \<noteq> ndim then Inl (ValueError (length hs) ndim)
          else Inr (x, map Float hs)
      | HInt64Array ns \<Rightarrow>
          if length ns \<noteq> ndim then Inl (ValueError (length ns) ndim)
          else Inr (x, map Int64 ns))"

subsection \<open>The Hessian\<close>

definition zeros2 :: "nat \<Rightarrow> nat \<Rightarrow> matrix" where
  "zeros2 m n = replicate m (replicate n 0)"

definition set2 :: "matrix \<Rightarrow> nat \<Rightarrow> nat \<Rightarrow> real \<Rightarrow> matrix" where
  \<comment> \<open>\<^verbatim>\<open>hess[i,j] = v\<close>\<close>
  "set2 hess i j v = hess[i := (hess ! i)[j := v]]"

text \<open>
  \<^verbatim>\<open>h[i]\<close> is an element of an array, a numpy scalar: the stencils' divisions are
  numpy's here, whatever \<open>func\<close> returns.
\<close>

fun inner_loop ::
  "objective \<Rightarrow> addr \<Rightarrow> step list \<Rightarrow> nat \<Rightarrow> nat list \<Rightarrow> matrix \<Rightarrow> world
     \<Rightarrow> (error + matrix) \<times> world" where
  "inner_loop func x h i [] hess w = (Inr hess, w)"
| "inner_loop func x h i (j # js) hess w =
     (if i = j then
        (case calc_partial_ii NumpyScalars func x i (h ! i) w of
           (Inl e, w') \<Rightarrow> (Inl e, w')
         | (Inr d, w') \<Rightarrow> inner_loop func x h i js (set2 hess i i (stored d)) w')
      else
        (case calc_partial_ij NumpyScalars func x i j (h ! i) (h ! j) w of
           (Inl e, w') \<Rightarrow> (Inl e, w')
         | (Inr d, w') \<Rightarrow>
             let hess1 = set2 hess i j (stored d);
                 hess2 = set2 hess1 j i (hess1 ! i ! j)
             in inner_loop func x h i js hess2 w'))"

fun outer_loop ::
  "objective \<Rightarrow> addr \<Rightarrow> step list \<Rightarrow> nat \<Rightarrow> nat list \<Rightarrow> matrix \<Rightarrow> world
     \<Rightarrow> (error + matrix) \<times> world" where
  "outer_loop func x h ndim [] hess w = (Inr hess, w)"
| "outer_loop func x h ndim (i # is) hess w =
     (case inner_loop func x h i [i..<ndim] hess w of
        (Inl e, w') \<Rightarrow> (Inl e, w')
      | (Inr hess', w') \<Rightarrow> outer_loop func x h ndim is hess' w')"

definition calc_hess ::
  "objective \<Rightarrow> addr \<Rightarrow> step_arg \<Rightarrow> world \<Rightarrow> (error + matrix) \<times> world" where
  "calc_hess func x h w =
     (case get_x_and_h x h w of
        Inl e \<Rightarrow> (Inl e, w)
      | Inr (xa, hs) \<Rightarrow>
          let ndim = length (heap w ! xa);
              hess = zeros2 ndim ndim
          in outer_loop func xa hs ndim [0..<ndim] hess w)"

subsection \<open>The covariance\<close>

definition calc_cov ::
  "(matrix \<Rightarrow> error + matrix) \<Rightarrow> objective \<Rightarrow> addr \<Rightarrow> step_arg \<Rightarrow> world
     \<Rightarrow> (error + matrix) \<times> world" where
  "calc_cov linv func x h w =
     (case calc_hess func x h w of
        (Inl e, w') \<Rightarrow> (Inl e, w')
      | (Inr hess, w') \<Rightarrow>
          (case linv hess of
             Inl e \<Rightarrow> (Inl e, w')
           | Inr m \<Rightarrow> (Inr (map (map uminus) m), w')))"

section \<open>Specification\<close>

subsection \<open>The stencils as formulas\<close>

text \<open>
  \<open>shift xs i d\<close> is the point \<open>x + d\<cdot>e\<^sub>i\<close>: coordinate \<open>i\<close> is moved by \<open>d\<close> and every
  other coordinate keeps its value. The two difference quotients are written with it,
  term by term as the docstrings of the stencils give them, as real numbers: the
  numerator over the denominator the stencil computes, HOL's division by zero being \<open>0\<close>.
\<close>

definition shift :: "real list \<Rightarrow> nat \<Rightarrow> real \<Rightarrow> real list" where
  "shift xs i d = map (\<lambda>k. if k = i then xs ! k + d else xs ! k) [0..<length xs]"

definition second_num :: "objective \<Rightarrow> real list \<Rightarrow> nat \<Rightarrow> real \<Rightarrow> real" where
  "second_num f xs i h = f (shift xs i h) - 2 * f xs + f (shift xs i (- h))"

definition mixed_num :: "objective \<Rightarrow> real list \<Rightarrow> nat \<Rightarrow> nat \<Rightarrow> real \<Rightarrow> real \<Rightarrow> real" where
  "mixed_num f xs i j h k =
     f (shift (shift xs i h) j k) - f (shift (shift xs i h) j (- k))
       - f (shift (shift xs i (- h)) j k) + f (shift (shift xs i (- h)) j (- k))"

definition second_diff :: "objective \<Rightarrow> real list \<Rightarrow> nat \<Rightarrow> step \<Rightarrow> real" where
  "second_diff f xs i h = second_num f xs i (step_val h) / step_val (step_sq h)"

definition mixed_diff :: "objective \<Rightarrow> real list \<Rightarrow> nat \<Rightarrow> nat \<Rightarrow> step \<Rightarrow> step \<Rightarrow> real" where
  "mixed_diff f xs i j h k =
     mixed_num f xs i j (step_val h) (step_val k) / (4 * step_val h * step_val k)"

definition hess_entry :: "objective \<Rightarrow> real list \<Rightarrow> step list \<Rightarrow> nat \<Rightarrow> nat \<Rightarrow> real" where
  "hess_entry f xs hs i j =
     (if i = j then second_diff f xs i (hs ! i)
      else if i < j then mixed_diff f xs i j (hs ! i) (hs ! j)
      else mixed_diff f xs j i (hs ! j) (hs ! i))"

text \<open>
  The normalised step sizes: a scalar is repeated once per dimension, a sequence is
  taken as it is. Step sizes are valid when they are real numbers, one per dimension: a
  scalar, or a sequence of floats with one entry per dimension. \<open>steps\<close> gives their
  values. \<open>same_dimension\<close> asks for the length only, whatever the element type, and
  \<open>norm_steps\<close> is the normalised sequence with its element type.
\<close>

definition steps :: "nat \<Rightarrow> step_arg \<Rightarrow> real list" where
  "steps n h =
     (case h of
        HScalar s \<Rightarrow> replicate n s
      | HArray hs \<Rightarrow> hs
      | HInt64Array ns \<Rightarrow> map (\<lambda>n. real_of_int (sint n)) ns)"

definition valid_steps :: "nat \<Rightarrow> step_arg \<Rightarrow> bool" where
  "valid_steps n h =
     (case h of
        HScalar s \<Rightarrow> True
      | HArray hs \<Rightarrow> length hs = n
      | HInt64Array ns \<Rightarrow> False)"

definition same_dimension :: "nat \<Rightarrow> step_arg \<Rightarrow> bool" where
  "same_dimension n h =
     (case h of
        HScalar s \<Rightarrow> True
      | HArray hs \<Rightarrow> length hs = n
      | HInt64Array ns \<Rightarrow> length ns = n)"

definition norm_steps :: "nat \<Rightarrow> step_arg \<Rightarrow> step list" where
  "norm_steps n h =
     (case h of
        HScalar s \<Rightarrow> replicate n (Float s)
      | HArray hs \<Rightarrow> map Float hs
      | HInt64Array ns \<Rightarrow> map Int64 ns)"

subsection \<open>The loops without the store\<close>

text \<open>
  The matrix the double loop builds (\<open>row_fill\<close>, \<open>hess_fill\<close>), the points at which it
  evaluates the objective function, in order (\<open>ii_points\<close>, \<open>ij_points\<close>, \<open>row_points\<close>,
  \<open>hess_points\<close>), and the final contents of the private copies it allocates
  (\<open>row_copies\<close>, \<open>hess_copies\<close>).
\<close>

definition square :: "nat \<Rightarrow> matrix \<Rightarrow> bool" where
  "square n hess \<longleftrightarrow> length hess = n \<and> (\<forall>r\<in>set hess. length r = n)"

definition ii_points :: "real list \<Rightarrow> nat \<Rightarrow> real \<Rightarrow> real list list" where
  "ii_points xs i h = [shift xs i h, xs, shift xs i (- h)]"

definition ij_points :: "real list \<Rightarrow> nat \<Rightarrow> nat \<Rightarrow> real \<Rightarrow> real \<Rightarrow> real list list" where
  "ij_points xs i j h k =
     [shift (shift xs i h) j k, shift (shift xs i h) j (- k),
      shift (shift xs i (- h)) j k, shift (shift xs i (- h)) j (- k)]"

definition row_points :: "real list \<Rightarrow> step list \<Rightarrow> nat \<Rightarrow> nat list \<Rightarrow> real list list" where
  "row_points xs hs i js =
     concat (map (\<lambda>j. if i = j then ii_points xs i (step_val (hs ! i))
                       else ij_points xs i j (step_val (hs ! i)) (step_val (hs ! j))) js)"

definition hess_points :: "real list \<Rightarrow> step list \<Rightarrow> nat list \<Rightarrow> real list list" where
  "hess_points xs hs is = concat (map (\<lambda>i. row_points xs hs i [i..<length xs]) is)"

fun row_fill ::
  "objective \<Rightarrow> real list \<Rightarrow> step list \<Rightarrow> nat \<Rightarrow> nat list \<Rightarrow> matrix \<Rightarrow> matrix" where
  "row_fill f xs hs i [] hess = hess"
| "row_fill f xs hs i (j # js) hess =
     (if i = j then row_fill f xs hs i js (set2 hess i i (second_diff f xs i (hs ! i)))
      else
        let hess1 = set2 hess i j (mixed_diff f xs i j (hs ! i) (hs ! j));
            hess2 = set2 hess1 j i (hess1 ! i ! j)
        in row_fill f xs hs i js hess2)"

definition row_copies :: "real list \<Rightarrow> step list \<Rightarrow> nat \<Rightarrow> nat list \<Rightarrow> real list list" where
  "row_copies xs hs i js =
     map (\<lambda>j. if i = j then shift xs i (- step_val (hs ! i))
               else shift (shift xs i (- step_val (hs ! i))) j (- step_val (hs ! j))) js"

fun hess_fill ::
  "objective \<Rightarrow> real list \<Rightarrow> step list \<Rightarrow> nat list \<Rightarrow> matrix \<Rightarrow> matrix" where
  "hess_fill f xs hs [] hess = hess"
| "hess_fill f xs hs (i # is) hess =
     hess_fill f xs hs is (row_fill f xs hs i [i..<length xs] hess)"

definition hess_copies :: "real list \<Rightarrow> step list \<Rightarrow> nat list \<Rightarrow> real list list" where
  "hess_copies xs hs is = concat (map (\<lambda>i. row_copies xs hs i [i..<length xs]) is)"

subsection \<open>The inversion routine\<close>

text \<open>
  What is asked of the external inversion routine: a matrix without a two-sided inverse
  is refused with \<open>LinAlgError\<close>. \<open>inv_small\<close> is a routine of that kind used to
  instantiate the results: exact on matrices of dimension 0 and 1, refusing all others.
\<close>

definition mat_mul :: "nat \<Rightarrow> matrix \<Rightarrow> matrix \<Rightarrow> matrix" where
  "mat_mul n A B =
     map (\<lambda>i. map (\<lambda>j. \<Sum>k\<leftarrow>[0..<n]. A ! i ! k * B ! k ! j) [0..<n]) [0..<n]"

definition identity :: "nat \<Rightarrow> matrix" where
  "identity n = map (\<lambda>i. map (\<lambda>j. if i = j then 1 else 0) [0..<n]) [0..<n]"

definition inverse_of :: "matrix \<Rightarrow> matrix \<Rightarrow> bool" where
  "inverse_of H M \<longleftrightarrow>
     square (length H) H \<and> square (length H) M \<and>
     mat_mul (length H) H M = identity (length H) \<and>
     mat_mul (length H) M H = identity (length H)"

definition singular :: "matrix \<Rightarrow> bool" where
  "singular H \<longleftrightarrow> \<not> (\<exists>M. inverse_of H M)"

definition fails_on_singular :: "(matrix \<Rightarrow> error + matrix) \<Rightarrow> bool" where
  "fails_on_singular linv \<longleftrightarrow> (\<forall>H. singular H \<longrightarrow> linv H = Inl LinAlgError)"

fun inv_small :: "matrix \<Rightarrow> error + matrix" where
  "inv_small [] = Inr []"
| "inv_small [[a]] = (if a = 0 then Inl LinAlgError else Inr [[1 / a]])"
| "inv_small H = Inl LinAlgError"

definition returns_inverse :: "(matrix \<Rightarrow> error + matrix) \<Rightarrow> matrix \<Rightarrow> bool" where
  \<comment> \<open>the routine is exact at \<open>H\<close>: it returns the inverse when there is one\<close>
  "returns_inverse linv H \<longleftrightarrow> (\<forall>M. inverse_of H M \<longrightarrow> linv H = Inr M)"

subsection \<open>Example inputs\<close>

text \<open>
  A two-dimensional point \<open>(3, 5)\<close> with the objective \<open>x\<^sup>2\<cdot>y\<close>, a one-dimensional point
  \<open>3\<close> with the objective \<open>-x\<^sup>2\<close>, and a point of dimension zero; each store holds the
  point at address 0 and nothing has been evaluated yet.
\<close>

definition example_func :: objective where
  "example_func p = p ! 0 * p ! 0 * p ! 1"

definition example_world :: world where
  "example_world = \<lparr>heap = [[3, 5]], calls = []\<rparr>"

definition example_quadratic :: objective where
  "example_quadratic p = - (p ! 0 * p ! 0)"

definition example_world1 :: world where
  "example_world1 = \<lparr>heap = [[3]], calls = []\<rparr>"

definition example_empty :: world where
  "example_empty = \<lparr>heap = [[]], calls = []\<rparr>"

section \<open>The code against the formulas\<close>

subsection \<open>One stencil\<close>

lemma shift_update: "shift xs i d = xs[i := xs ! i + d]"
  by (rule nth_equalityI) (auto simp: shift_def nth_list_update)

lemma length_shift [simp]: "length (shift xs i d) = length xs"
  by (simp add: shift_def)

lemma truediv_numpy:
  "truediv NumpyScalars num denom = Inr (if denom = 0 then NonFinite else Finite (num / denom))"
  by (simp add: truediv_def)

lemma truediv_python:
  "truediv PythonNumbers num denom =
     (if denom = 0 then Inl ZeroDivisionError else Inr (Finite (num / denom)))"
  by (simp add: truediv_def)

lemma stored_quotient: "stored (if denom = 0 then NonFinite else Finite (num / denom)) = num / denom"
  by (simp add: stored_def)

lemma step_float [simp]:
  "step_val (Float r) = r"
  "step_val (step_sq (Float r)) = r\<^sup>2"
  by (simp_all add: step_val_def step_sq_def)


lemma dispatch_simps [simp]:
  "dispatch NumpyScalars h = NumpyScalars"
  "dispatch ops (Float r) = ops"
  by (cases h) (simp_all add: dispatch_def)

lemma calc_partial_ii_result:
  assumes "x < length (heap w)" and "i < length (heap w ! x)"
  shows "calc_partial_ii ops f x i h w =
           (truediv (dispatch ops h) (second_num f (heap w ! x) i (step_val h)) (step_val (step_sq h)),
            w\<lparr>heap := heap w @ [shift (heap w ! x) i (- step_val h)],
              calls := calls w @ ii_points (heap w ! x) i (step_val h)\<rparr>)"
  using assms
  by (simp add: calc_partial_ii_def copy_def aset_def aget_def call_def Let_def
      second_num_def ii_points_def shift_update nth_append list_update_append)

lemma calc_partial_ij_result:
  assumes "x < length (heap w)" and "i < length (heap w ! x)" and "j < length (heap w ! x)"
    and "i \<noteq> j"
  shows "calc_partial_ij ops f x i j h k w =
           (truediv (dispatch (dispatch ops h) k) (mixed_num f (heap w ! x) i j (step_val h) (step_val k))
              (4 * step_val h * step_val k),
            w\<lparr>heap := heap w @ [shift (shift (heap w ! x) i (- step_val h)) j (- step_val k)],
              calls := calls w @ ij_points (heap w ! x) i j (step_val h) (step_val k)\<rparr>)"
  using assms
  by (simp add: calc_partial_ij_def copy_def aset_def aget_def call_def Let_def
      mixed_num_def ij_points_def shift_update nth_append list_update_append
      list_update_swap [of j i])

lemma calc_partial_ii_numpy:
  assumes "x < length (heap w)" and "i < length (heap w ! x)"
  shows "\<exists>d. calc_partial_ii NumpyScalars f x i h w =
           (Inr d,
            w\<lparr>heap := heap w @ [shift (heap w ! x) i (- step_val h)],
              calls := calls w @ ii_points (heap w ! x) i (step_val h)\<rparr>)
         \<and> stored d = second_diff f (heap w ! x) i h"
  unfolding calc_partial_ii_result [OF assms] dispatch_simps truediv_numpy second_diff_def
  using stored_quotient by blast

lemma calc_partial_ij_numpy:
  assumes "x < length (heap w)" and "i < length (heap w ! x)" and "j < length (heap w ! x)"
    and "i \<noteq> j"
  shows "\<exists>d. calc_partial_ij NumpyScalars f x i j h k w =
           (Inr d,
            w\<lparr>heap := heap w @ [shift (shift (heap w ! x) i (- step_val h)) j (- step_val k)],
              calls := calls w @ ij_points (heap w ! x) i j (step_val h) (step_val k)\<rparr>)
         \<and> stored d = mixed_diff f (heap w ! x) i j h k"
  unfolding calc_partial_ij_result [OF assms] dispatch_simps truediv_numpy mixed_diff_def
  using stored_quotient by blast

subsection \<open>The matrix\<close>

lemma square_zeros2: "square n (zeros2 n n)"
  by (simp add: square_def zeros2_def)

lemma zeros2_nth: "a < n \<Longrightarrow> b < n \<Longrightarrow> zeros2 n n ! a ! b = 0"
  by (simp add: zeros2_def)

lemma square_set2:
  assumes "square n hess"
  shows "square n (set2 hess i j v)"
proof (cases "i < length hess")
  case True
  with assms have "length ((hess ! i)[j := v]) = n"
    by (simp add: square_def)
  with assms show ?thesis
    unfolding square_def set2_def
    by (auto dest!: set_update_subset_insert [THEN subsetD])
next
  case False
  then have "hess[i := (hess ! i)[j := v]] = hess"
    by (intro list_update_beyond) simp
  with assms show ?thesis by (simp add: set2_def)
qed

lemma set2_nth:
  assumes "square n hess" and "a < n" and "b < n"
  shows "set2 hess i j v ! a ! b = (if a = i \<and> b = j then v else hess ! a ! b)"
proof (cases "a = i")
  case True
  with assms show ?thesis
    by (simp add: square_def set2_def nth_list_update)
next
  case False
  with assms show ?thesis
    by (simp add: square_def set2_def)
qed

lemma square_eqI:
  assumes "square n A" and "square n B"
    and "\<And>a b. a < n \<Longrightarrow> b < n \<Longrightarrow> A ! a ! b = B ! a ! b"
  shows "A = B"
proof (rule nth_equalityI)
  show "length A = length B" using assms(1,2) by (simp add: square_def)
next
  fix a assume a: "a < length A"
  then have an: "a < n" using assms(1) by (simp add: square_def)
  have la: "length (A ! a) = n" using assms(1) a by (simp add: square_def)
  have lb: "length (B ! a) = n" using assms(2) an by (simp add: square_def)
  show "A ! a = B ! a"
    by (rule nth_equalityI) (use la lb an assms(3) in simp_all)
qed

lemma square_row_fill:
  "square n hess \<Longrightarrow> square n (row_fill f xs hs i js hess)"
  by (induction js arbitrary: hess) (auto simp: square_set2 Let_def)

lemma row_fill_nth:
  assumes "square n hess" and "\<forall>j\<in>set js. i \<le> j \<and> j < n" and "a < n" and "b < n"
  shows "row_fill f xs hs i js hess ! a ! b =
           (if (a = i \<and> b \<in> set js) \<or> (b = i \<and> a \<in> set js)
            then hess_entry f xs hs a b else hess ! a ! b)"
  using assms(1,2)
proof (induction js arbitrary: hess)
  case Nil
  show ?case by simp
next
  case (Cons j js)
  from Cons.prems have j: "i \<le> j" "j < n" and i: "i < n"
    and rest: "\<forall>j\<in>set js. i \<le> j \<and> j < n" by auto
  show ?case
  proof (cases "i = j")
    case True
    let ?h1 = "set2 hess i i (second_diff f xs i (hs ! i))"
    have sq: "square n ?h1" using Cons.prems(1) by (rule square_set2)
    have "row_fill f xs hs i (j # js) hess ! a ! b = row_fill f xs hs i js ?h1 ! a ! b"
      using True by simp
    also have "\<dots> = (if (a = i \<and> b \<in> set js) \<or> (b = i \<and> a \<in> set js)
                      then hess_entry f xs hs a b else ?h1 ! a ! b)"
      using sq rest by (rule Cons.IH)
    also have "?h1 ! a ! b = (if a = i \<and> b = i then second_diff f xs i (hs ! i) else hess ! a ! b)"
      using Cons.prems(1) assms(3,4) by (rule set2_nth)
    finally show ?thesis
      using True by (auto simp: hess_entry_def)
  next
    case False
    with j have lt: "i < j" by simp
    define d where "d = mixed_diff f xs i j (hs ! i) (hs ! j)"
    let ?h1 = "set2 hess i j d"
    let ?h2 = "set2 ?h1 j i (?h1 ! i ! j)"
    have sq1: "square n ?h1" using Cons.prems(1) by (rule square_set2)
    have sq2: "square n ?h2" using sq1 by (rule square_set2)
    have readback: "?h1 ! i ! j = d"
      using set2_nth [OF Cons.prems(1) i j(2), of i j d] by simp
    have h2: "?h2 ! a ! b = (if (a = i \<and> b = j) \<or> (a = j \<and> b = i) then d else hess ! a ! b)"
      using set2_nth [OF sq1 assms(3,4), of j i "?h1 ! i ! j"]
        set2_nth [OF Cons.prems(1) assms(3,4), of i j d] readback lt
      by auto
    have "row_fill f xs hs i (j # js) hess ! a ! b = row_fill f xs hs i js ?h2 ! a ! b"
      using False by (simp add: d_def Let_def)
    also have "\<dots> = (if (a = i \<and> b \<in> set js) \<or> (b = i \<and> a \<in> set js)
                      then hess_entry f xs hs a b else ?h2 ! a ! b)"
      using sq2 rest by (rule Cons.IH)
    finally show ?thesis
      using h2 lt by (auto simp: hess_entry_def d_def)
  qed
qed

lemma square_hess_fill:
  "square n hess \<Longrightarrow> square n (hess_fill f xs hs is hess)"
  by (induction "is" arbitrary: hess) (simp_all add: square_row_fill)

lemma hess_fill_nth:
  assumes "square (length xs) hess" and "\<forall>i\<in>set is. i < length xs"
    and "a < length xs" and "b < length xs"
  shows "hess_fill f xs hs is hess ! a ! b =
           (if (a \<in> set is \<and> a \<le> b) \<or> (b \<in> set is \<and> b \<le> a)
            then hess_entry f xs hs a b else hess ! a ! b)"
  using assms(1,2)
proof (induction "is" arbitrary: hess)
  case Nil
  show ?case by simp
next
  case (Cons i "is")
  let ?n = "length xs"
  let ?h1 = "row_fill f xs hs i [i..<?n] hess"
  from Cons.prems have rest: "\<forall>i\<in>set is. i < ?n" by simp
  have sq: "square ?n ?h1" using Cons.prems(1) by (rule square_row_fill)
  have row: "?h1 ! a ! b =
               (if (a = i \<and> b \<in> set [i..<?n]) \<or> (b = i \<and> a \<in> set [i..<?n])
                then hess_entry f xs hs a b else hess ! a ! b)"
    using Cons.prems(1) _ assms(3,4) by (rule row_fill_nth) simp
  have "hess_fill f xs hs (i # is) hess ! a ! b = hess_fill f xs hs is ?h1 ! a ! b"
    by simp
  also have "\<dots> = (if (a \<in> set is \<and> a \<le> b) \<or> (b \<in> set is \<and> b \<le> a)
                    then hess_entry f xs hs a b else ?h1 ! a ! b)"
    using sq rest by (rule Cons.IH)
  finally show ?case
    using row assms(3,4) by auto
qed

lemma hess_fill_all:
  assumes "a < length xs" and "b < length xs"
  shows "hess_fill f xs hs [0..<length xs] (zeros2 (length xs) (length xs)) ! a ! b =
           hess_entry f xs hs a b"
  using hess_fill_nth [OF square_zeros2 _ assms, of "[0..<length xs]" f hs] assms
  by (cases "a \<le> b") auto

subsection \<open>The loops\<close>

lemma inner_loop_run:
  assumes "x < length (heap w)" and "heap w ! x = xs"
    and "\<forall>j\<in>set js. i \<le> j \<and> j < length xs"
  shows "inner_loop f x hs i js hess w =
           (Inr (row_fill f xs hs i js hess),
            w\<lparr>heap := heap w @ row_copies xs hs i js,
              calls := calls w @ row_points xs hs i js\<rparr>)"
  using assms
proof (induction js arbitrary: hess w)
  case Nil
  show ?case by (simp add: row_points_def row_copies_def)
next
  case (Cons j js)
  from Cons.prems have j: "i \<le> j" "j < length xs" and i: "i < length xs"
    and rest: "\<forall>j\<in>set js. i \<le> j \<and> j < length xs" by auto
  show ?case
  proof (cases "i = j")
    case True
    define w1 where "w1 = w\<lparr>heap := heap w @ [shift xs i (- step_val (hs ! i))],
                              calls := calls w @ ii_points xs i (step_val (hs ! i))\<rparr>"
    obtain d where step: "calc_partial_ii NumpyScalars f x i (hs ! i) w = (Inr d, w1)"
      and d: "stored d = second_diff f xs i (hs ! i)"
      using calc_partial_ii_numpy [of x w i f "hs ! i"] Cons.prems(1,2) i
      by (auto simp: w1_def)
    have w1: "x < length (heap w1)" "heap w1 ! x = xs"
      using Cons.prems(1,2) by (simp_all add: w1_def nth_append)
    note run = Cons.IH [OF w1 rest, of "set2 hess i i (second_diff f xs i (hs ! i))"]
    show ?thesis
      using True step d run by (simp add: w1_def row_points_def row_copies_def)
  next
    case False
    define w1 where
      "w1 = w\<lparr>heap := heap w @ [shift (shift xs i (- step_val (hs ! i))) j (- step_val (hs ! j))],
               calls := calls w @ ij_points xs i j (step_val (hs ! i)) (step_val (hs ! j))\<rparr>"
    define m where "m = mixed_diff f xs i j (hs ! i) (hs ! j)"
    obtain d where step: "calc_partial_ij NumpyScalars f x i j (hs ! i) (hs ! j) w = (Inr d, w1)"
      and d: "stored d = m"
      using calc_partial_ij_numpy [of x w i j f "hs ! i" "hs ! j"] Cons.prems(1,2) i j False
      by (auto simp: w1_def m_def)
    have w1: "x < length (heap w1)" "heap w1 ! x = xs"
      using Cons.prems(1,2) by (simp_all add: w1_def nth_append)
    note run = Cons.IH [OF w1 rest, of "set2 (set2 hess i j m) j i (set2 hess i j m ! i ! j)"]
    show ?thesis
      using False step d run
      by (simp add: w1_def m_def row_points_def row_copies_def Let_def)
  qed
qed

lemma outer_loop_run:
  assumes "x < length (heap w)" and "heap w ! x = xs"
    and "\<forall>i\<in>set is. i < length xs"
  shows "outer_loop f x hs (length xs) is hess w =
           (Inr (hess_fill f xs hs is hess),
            w\<lparr>heap := heap w @ hess_copies xs hs is,
              calls := calls w @ hess_points xs hs is\<rparr>)"
  using assms
proof (induction "is" arbitrary: hess w)
  case Nil
  show ?case by (simp add: hess_points_def hess_copies_def)
next
  case (Cons i "is")
  define w1 where "w1 = w\<lparr>heap := heap w @ row_copies xs hs i [i..<length xs],
                            calls := calls w @ row_points xs hs i [i..<length xs]\<rparr>"
  have row: "inner_loop f x hs i [i..<length xs] hess w =
               (Inr (row_fill f xs hs i [i..<length xs] hess), w1)"
    unfolding w1_def using Cons.prems(1,2) by (intro inner_loop_run) simp_all
  have w1: "x < length (heap w1)" "heap w1 ! x = xs"
    using Cons.prems(1,2) by (simp_all add: w1_def nth_append)
  from Cons.prems(3) have rest: "\<forall>i\<in>set is. i < length xs" by simp
  note run = Cons.IH [OF w1 rest, of "row_fill f xs hs i [i..<length xs] hess"]
  show ?case
    using row run by (simp add: w1_def hess_points_def hess_copies_def)
qed

lemma length_steps: "valid_steps n h \<Longrightarrow> length (steps n h) = n"
  by (cases h) (simp_all add: steps_def valid_steps_def)

lemma valid_same_dimension: "valid_steps n h \<Longrightarrow> same_dimension n h"
  by (cases h) (simp_all add: same_dimension_def valid_steps_def)

lemma norm_steps_valid: "valid_steps n h \<Longrightarrow> norm_steps n h = map Float (steps n h)"
  by (cases h) (simp_all add: norm_steps_def steps_def valid_steps_def)

lemma get_x_and_h_valid:
  "same_dimension (length (heap w ! x)) h \<Longrightarrow>
   get_x_and_h x h w = Inr (x, norm_steps (length (heap w ! x)) h)"
  by (cases h) (simp_all add: get_x_and_h_def norm_steps_def same_dimension_def)

lemma calc_hess_run_steps:
  assumes "x < length (heap w)" and "same_dimension (length (heap w ! x)) h"
  shows "calc_hess f x h w =
           (Inr (hess_fill f (heap w ! x) (norm_steps (length (heap w ! x)) h)
                   [0..<length (heap w ! x)]
                   (zeros2 (length (heap w ! x)) (length (heap w ! x)))),
            w\<lparr>heap := heap w @ hess_copies (heap w ! x) (norm_steps (length (heap w ! x)) h)
                                [0..<length (heap w ! x)],
              calls := calls w @ hess_points (heap w ! x) (norm_steps (length (heap w ! x)) h)
                                [0..<length (heap w ! x)]\<rparr>)"
proof -
  have "outer_loop f x (norm_steps (length (heap w ! x)) h) (length (heap w ! x))
          [0..<length (heap w ! x)] (zeros2 (length (heap w ! x)) (length (heap w ! x))) w =
        (Inr (hess_fill f (heap w ! x) (norm_steps (length (heap w ! x)) h)
                   [0..<length (heap w ! x)]
                   (zeros2 (length (heap w ! x)) (length (heap w ! x)))),
            w\<lparr>heap := heap w @ hess_copies (heap w ! x) (norm_steps (length (heap w ! x)) h)
                                [0..<length (heap w ! x)],
              calls := calls w @ hess_points (heap w ! x) (norm_steps (length (heap w ! x)) h)
                                [0..<length (heap w ! x)]\<rparr>)"
    using assms(1) by (intro outer_loop_run) simp_all
  then show ?thesis
    by (simp add: calc_hess_def Let_def get_x_and_h_valid [OF assms(2)])
qed

lemma calc_hess_run:
  assumes "x < length (heap w)" and "valid_steps (length (heap w ! x)) h"
  shows "calc_hess f x h w =
           (Inr (hess_fill f (heap w ! x) (map Float (steps (length (heap w ! x)) h))
                   [0..<length (heap w ! x)]
                   (zeros2 (length (heap w ! x)) (length (heap w ! x)))),
            w\<lparr>heap := heap w @ hess_copies (heap w ! x)
                                (map Float (steps (length (heap w ! x)) h))
                                [0..<length (heap w ! x)],
              calls := calls w @ hess_points (heap w ! x)
                                (map Float (steps (length (heap w ! x)) h))
                                [0..<length (heap w ! x)]\<rparr>)"
  using calc_hess_run_steps [OF assms(1) valid_same_dimension [OF assms(2)], of f]
  by (simp add: norm_steps_valid [OF assms(2)])

text \<open>With float steps the entries and the evaluation points are the formulas over the
  step values.\<close>

lemma hess_entry_float:
  assumes "a < length hs" and "b < length hs"
  shows "hess_entry f xs (map Float hs) a b =
           (if a = b then
              (f (shift xs a (hs ! a)) - 2 * f xs + f (shift xs a (- (hs ! a)))) / (hs ! a)\<^sup>2
            else if a < b then
              (f (shift (shift xs a (hs ! a)) b (hs ! b))
               - f (shift (shift xs a (hs ! a)) b (- (hs ! b)))
               - f (shift (shift xs a (- (hs ! a))) b (hs ! b))
               + f (shift (shift xs a (- (hs ! a))) b (- (hs ! b))))
              / (4 * hs ! a * hs ! b)
            else
              (f (shift (shift xs b (hs ! b)) a (hs ! a))
               - f (shift (shift xs b (hs ! b)) a (- (hs ! a)))
               - f (shift (shift xs b (- (hs ! b))) a (hs ! a))
               + f (shift (shift xs b (- (hs ! b))) a (- (hs ! a))))
              / (4 * hs ! b * hs ! a))"
  using assms
  by (simp add: hess_entry_def second_diff_def mixed_diff_def second_num_def mixed_num_def)

lemma row_points_float:
  assumes "i < length hs" and "\<forall>j\<in>set js. j < length hs"
  shows "row_points xs (map Float hs) i js =
           concat (map (\<lambda>j.
               if i = j then [shift xs i (hs ! i), xs, shift xs i (- (hs ! i))]
               else [shift (shift xs i (hs ! i)) j (hs ! j),
                     shift (shift xs i (hs ! i)) j (- (hs ! j)),
                     shift (shift xs i (- (hs ! i))) j (hs ! j),
                     shift (shift xs i (- (hs ! i))) j (- (hs ! j))]) js)"
  using assms
  by (induction js) (simp_all add: row_points_def ii_points_def ij_points_def)

lemma hess_points_float:
  assumes "length hs = length xs" and "\<forall>i\<in>set is. i < length xs"
  shows "hess_points xs (map Float hs) is =
           concat (map (\<lambda>i. concat (map (\<lambda>j.
               if i = j then [shift xs i (hs ! i), xs, shift xs i (- (hs ! i))]
               else [shift (shift xs i (hs ! i)) j (hs ! j),
                     shift (shift xs i (hs ! i)) j (- (hs ! j)),
                     shift (shift xs i (- (hs ! i))) j (hs ! j),
                     shift (shift xs i (- (hs ! i))) j (- (hs ! j))])
             [i..<length xs])) is)"
  using assms
  by (induction "is") (simp_all add: hess_points_def row_points_float)

subsection \<open>Counting the evaluations\<close>

lemma length_row_points_off:
  "i \<notin> set js \<Longrightarrow> length (row_points xs hs i js) = 4 * length js"
  by (induction js) (auto simp: row_points_def ij_points_def)

lemma length_row_points:
  assumes "i < n"
  shows "length (row_points xs hs i [i..<n]) = 3 + 4 * (n - Suc i)"
proof -
  have "[i..<n] = i # [Suc i..<n]"
    using assms by (rule upt_conv_Cons)
  moreover have "length (row_points xs hs i [Suc i..<n]) = 4 * length [Suc i..<n]"
    by (rule length_row_points_off) simp
  ultimately show ?thesis
    by (simp add: row_points_def ii_points_def)
qed

lemma length_hess_points_from:
  "m = length xs - k \<Longrightarrow> k \<le> length xs \<Longrightarrow>
   length (hess_points xs hs [k..<length xs]) = 3 * m + 2 * (m * (m - 1))"
proof (induction m arbitrary: k)
  case 0
  then show ?case by (simp add: hess_points_def)
next
  case (Suc m)
  then have k: "k < length xs" and m: "m = length xs - Suc k" by simp_all
  have "[k..<length xs] = k # [Suc k..<length xs]"
    using k by (rule upt_conv_Cons)
  then have "length (hess_points xs hs [k..<length xs]) =
               length (row_points xs hs k [k..<length xs])
               + length (hess_points xs hs [Suc k..<length xs])"
    by (simp add: hess_points_def)
  also have "\<dots> = (3 + 4 * m) + (3 * m + 2 * (m * (m - 1)))"
    using length_row_points [OF k, of xs hs] Suc.IH [of "Suc k"] m k by simp
  also have "\<dots> = 3 * Suc m + 2 * (Suc m * (Suc m - 1))"
    by (cases m) (simp_all add: algebra_simps)
  finally show ?case .
qed

lemma length_hess_points:
  "length (hess_points xs hs [0..<length xs]) =
     3 * length xs + 4 * (length xs * (length xs - 1) div 2)"
proof -
  have "even (length xs * (length xs - 1))" by auto
  then have "4 * (length xs * (length xs - 1) div 2) = 2 * (length xs * (length xs - 1))"
    by (elim evenE) simp
  then show ?thesis
    using length_hess_points_from [of "length xs" xs 0 hs] by simp
qed

subsection \<open>Constant objective functions and singular matrices\<close>

lemma second_diff_const: "second_diff (\<lambda>_. c) xs i h = 0"
  by (simp add: second_diff_def second_num_def)

lemma mixed_diff_const: "mixed_diff (\<lambda>_. c) xs i j h k = 0"
  by (simp add: mixed_diff_def mixed_num_def)

lemma hess_fill_const:
  "hess_fill (\<lambda>_. c) xs hs [0..<length xs] (zeros2 (length xs) (length xs)) =
     zeros2 (length xs) (length xs)"
proof (rule square_eqI [of "length xs"])
  show "square (length xs) (hess_fill (\<lambda>_. c) xs hs [0..<length xs] (zeros2 (length xs) (length xs)))"
    by (rule square_hess_fill) (rule square_zeros2)
  show "square (length xs) (zeros2 (length xs) (length xs))" by (rule square_zeros2)
next
  fix a b assume "a < length xs" "b < length xs"
  then show "hess_fill (\<lambda>_. c) xs hs [0..<length xs] (zeros2 (length xs) (length xs)) ! a ! b
               = zeros2 (length xs) (length xs) ! a ! b"
    by (simp add: hess_fill_all hess_entry_def second_diff_const mixed_diff_const zeros2_nth)
qed

lemma singular_zeros2:
  assumes "0 < n"
  shows "singular (zeros2 n n)"
proof -
  have "mat_mul n (zeros2 n n) M \<noteq> identity n" for M
  proof
    assume eq: "mat_mul n (zeros2 n n) M = identity n"
    have "mat_mul n (zeros2 n n) M ! 0 ! 0 = (\<Sum>k\<leftarrow>[0..<n]. zeros2 n n ! 0 ! k * M ! k ! 0)"
      using assms by (simp add: mat_mul_def)
    also have "\<dots> = (\<Sum>k\<leftarrow>[0..<n]. 0)"
      by (rule arg_cong [where f = sum_list], rule map_cong) (simp_all add: zeros2_def assms)
    also have "\<dots> = 0" by simp
    finally have "mat_mul n (zeros2 n n) M ! 0 ! 0 = 0" .
    moreover have "identity n ! 0 ! 0 = 1"
      using assms by (simp add: identity_def)
    ultimately show False using eq by simp
  qed
  then show ?thesis
    by (simp add: singular_def inverse_of_def zeros2_def)
qed

lemma fails_on_singular_inv_small: "fails_on_singular inv_small"
  unfolding fails_on_singular_def
proof (intro allI impI)
  fix H assume sing: "singular H"
  show "inv_small H = Inl LinAlgError"
  proof (cases H rule: inv_small.cases)
    case 1
    have "inverse_of [] []"
      by (simp add: inverse_of_def square_def mat_mul_def identity_def)
    with sing 1 show ?thesis by (auto simp: singular_def)
  next
    case (2 a)
    show ?thesis
    proof (cases "a = 0")
      case True
      with 2 show ?thesis by simp
    next
      case False
      then have "inverse_of [[a]] [[1 / a]]"
        by (simp add: inverse_of_def square_def mat_mul_def identity_def)
      with sing 2 show ?thesis by (auto simp: singular_def)
    qed
  qed simp_all
qed


subsection \<open>Inverses of small matrices\<close>

lemma square_1D: "square (Suc 0) M \<Longrightarrow> \<exists>m. M = [[m]]"
  by (cases M; cases "hd M"; cases "tl M"; cases "tl (hd M)") (auto simp: square_def)

lemma inverse_of_1x1:
  assumes "a \<noteq> 0"
  shows "inverse_of [[a]] M \<longleftrightarrow> M = [[1 / a]]"
proof
  assume inv: "inverse_of [[a]] M"
  then have "square (Suc 0) M" by (simp add: inverse_of_def)
  then obtain m where M: "M = [[m]]" using square_1D by blast
  with inv have "a * m = 1" by (simp add: inverse_of_def mat_mul_def identity_def)
  with assms have "m = 1 / a" by (simp add: field_simps)
  with M show "M = [[1 / a]]" by simp
next
  assume "M = [[1 / a]]"
  with assms show "inverse_of [[a]] M"
    by (simp add: inverse_of_def square_def mat_mul_def identity_def)
qed

lemma returns_inverse_inv_small_1x1: "a \<noteq> 0 \<Longrightarrow> returns_inverse inv_small [[a]]"
  by (simp add: returns_inverse_def inverse_of_1x1)

subsection \<open>What a call leaves in the store\<close>

lemma snd_calc_cov: "snd (calc_cov linv f x h w) = snd (calc_hess f x h w)"
  by (simp add: calc_cov_def split: prod.splits sum.splits)

lemma calc_hess_invalid:
  "\<not> same_dimension (length (heap w ! x)) h \<Longrightarrow> snd (calc_hess f x h w) = w"
  by (cases h) (simp_all add: same_dimension_def calc_hess_def get_x_and_h_def)

lemma scalar_step_float_sequence:
  "calc_hess f x (HScalar s) w = calc_hess f x (HArray (replicate (length (heap w ! x)) s)) w
   \<and> calc_cov linv f x (HScalar s) w =
       calc_cov linv f x (HArray (replicate (length (heap w ! x)) s)) w"
  by (simp add: calc_cov_def calc_hess_def get_x_and_h_def)

lemma shift_shift_nth:
  assumes "k < length xs" and "i \<noteq> j"
  shows "shift (shift xs i a) j b ! k =
           (if k = i then xs ! k + a else if k = j then xs ! k + b else xs ! k)"
  using assms by (simp add: shift_def)

subsection \<open>The examples evaluated\<close>

lemma hess_example1:
  "calc_hess example_quadratic 0 (HScalar 1) example_world1 =
     (Inr [[- 2]], \<lparr>heap = [[3], [2]], calls = [[4], [3], [2]]\<rparr>)"
  by (simp add: calc_hess_def get_x_and_h_def zeros2_def calc_partial_ii_def copy_def
      aset_def aget_def call_def set2_def Let_def truediv_def stored_def
      example_quadratic_def example_world1_def)

lemma hess_example2:
  "calc_hess example_func 0 (HScalar 1) example_world =
     (Inr [[10, 6], [6, 0]],
      \<lparr>heap = [[3, 5], [2, 5], [2, 4], [3, 4]],
        calls = [[4, 5], [3, 5], [2, 5], [4, 6], [4, 4], [2, 6], [2, 4],
                 [3, 6], [3, 5], [3, 4]]\<rparr>)"
  by (simp add: calc_hess_def get_x_and_h_def zeros2_def calc_partial_ii_def
      calc_partial_ij_def copy_def aset_def aget_def call_def set2_def Let_def
      truediv_def stored_def example_func_def example_world_def upt_rec)

lemma example_world_valid:
  "0 < length (heap example_world)"
  "length (heap example_world ! 0) = 2"
  "heap example_world ! 0 = [3, 5]"
  by (simp_all add: example_world_def)

lemma example_steps:
  "valid_steps (length (heap example_world ! 0)) (HScalar 1)"
  "steps 2 (HScalar 1) = [1, 1]"
  by (simp_all add: valid_steps_def steps_def numeral_2_eq_2)

lemma example_point: "[3, 5] = heap example_world ! 0"
  by (simp add: example_world_def)

lemma example_hs: "[1, 1] = steps (length [3, 5 :: real]) (HScalar 1)"
  by (simp add: steps_def numeral_2_eq_2)

lemma shift_example:
  "shift [a, b] 0 d = [a + d, b]"
  "shift [a, b] (Suc 0) d = [a, b + d]"
  by (simp_all add: shift_def upt_rec)

section \<open>The claims\<close>

text \<open>
  Throughout, a call is valid when \<open>x\<close> is the address of an array of the store and
  the step sizes are real numbers, one per dimension: a scalar, or a sequence of floats
  with one entry per dimension. \<open>xs\<close> is the point (the contents of that array when the
  call is made) and \<open>hs\<close> the normalised step sizes.
\<close>

subsection \<open>C1\<close>

text \<open>
  \<^bold>\<open>C1\<close>. When the Hessian \<open>H\<close> computed by \<^verbatim>\<open>calc_hess\<close> is invertible, with inverse \<open>M\<close>,
  and the inversion routine is exact at \<open>H\<close>, \<^verbatim>\<open>calc_cov\<close> returns the entrywise negation of
  \<open>M\<close>, and leaves the store as \<^verbatim>\<open>calc_hess\<close> left it.
\<close>

theorem calc_cov_neg_inverse:
  assumes "calc_hess f x h w = (Inr H, w')"
    and "inverse_of H M"
    and "returns_inverse linv H"
  shows "calc_cov linv f x h w = (Inr (map (map uminus) M), w')"
  using assms by (simp add: calc_cov_def returns_inverse_def)

theorem calc_cov_neg_inverse_witness:
  "calc_hess example_quadratic 0 (HScalar 1) example_world1 =
     (Inr [[- 2]], \<lparr>heap = [[3], [2]], calls = [[4], [3], [2]]\<rparr>)
   \<and> inverse_of [[- 2]] [[- (1 / 2)]]
   \<and> returns_inverse inv_small [[- 2]]
   \<and> calc_cov inv_small example_quadratic 0 (HScalar 1) example_world1 =
     (Inr [[1 / 2]], \<lparr>heap = [[3], [2]], calls = [[4], [3], [2]]\<rparr>)"
proof -
  have inv: "inverse_of [[- 2]] [[- (1 / 2)]]"
    using inverse_of_1x1 [of "- 2" "[[- (1 / 2)]]"] by simp
  have ret: "returns_inverse inv_small [[- 2]]"
    by (rule returns_inverse_inv_small_1x1) simp
  show ?thesis
    using calc_cov_neg_inverse [OF hess_example1 inv ret] hess_example1 inv ret by simp
qed

subsection \<open>C2\<close>



subsection \<open>C3\<close>

text \<open>
  \<^bold>\<open>C3\<close>. For every valid call and every \<open>i < N\<close>, the diagonal entry \<open>H[i][i]\<close> is the
  three-point second difference \<open>(f(x + h\<^sub>i\<cdot>e\<^sub>i) - 2\<cdot>f(x) + f(x - h\<^sub>i\<cdot>e\<^sub>i)) / h\<^sub>i\<^sup>2\<close>.
\<close>

theorem calc_hess_diagonal:
  assumes "x < length (heap w)" and "valid_steps (length (heap w ! x)) h"
    and "xs = heap w ! x" and "hs = steps (length xs) h"
  shows "\<exists>H w'. calc_hess f x h w = (Inr H, w')
           \<and> (\<forall>i<length xs.
                 H ! i ! i =
                   (f (shift xs i (hs ! i)) - 2 * f xs + f (shift xs i (- (hs ! i))))
                   / (hs ! i)\<^sup>2)"
proof -
  let ?H = "hess_fill f xs (map Float hs) [0..<length xs] (zeros2 (length xs) (length xs))"
  have len: "length hs = length xs"
    using length_steps [OF assms(2)] assms(3,4) by simp
  have "\<forall>i<length xs. ?H ! i ! i =
          (f (shift xs i (hs ! i)) - 2 * f xs + f (shift xs i (- (hs ! i)))) / (hs ! i)\<^sup>2"
    by (simp add: hess_fill_all hess_entry_float len)
  then show ?thesis
    using calc_hess_run [OF assms(1,2), of f] assms(3,4) by blast
qed

theorem calc_hess_diagonal_witness:
  "0 < length (heap example_world)
   \<and> valid_steps (length (heap example_world ! 0)) (HScalar 1)
   \<and> (\<exists>H w'. calc_hess example_func 0 (HScalar 1) example_world = (Inr H, w')
         \<and> H ! 0 ! 0 = 10 \<and> H ! 1 ! 1 = 0)"
proof -
  from calc_hess_diagonal
         [OF example_world_valid(1) example_steps(1) example_point example_hs, of example_func]
  obtain H w' where run: "calc_hess example_func 0 (HScalar 1) example_world = (Inr H, w')"
    and diag: "\<forall>i<length [3, 5 :: real]. H ! i ! i =
                 (example_func (shift [3, 5] i ([1, 1] ! i)) - 2 * example_func [3, 5]
                  + example_func (shift [3, 5] i (- ([1, 1] ! i)))) / ([1, 1] ! i)\<^sup>2"
    by blast
  from diag [rule_format, of 0] diag [rule_format, of 1]
  have "H ! 0 ! 0 = 10" "H ! 1 ! 1 = 0"
    by (simp_all add: shift_example example_func_def)
  with run example_world_valid(1) example_steps(1) show ?thesis by blast
qed

subsection \<open>C4\<close>

text \<open>
  \<^bold>\<open>C4\<close>. For every valid call and all \<open>i < j < N\<close>, the entry \<open>H[i][j]\<close> is the four-point
  mixed difference over \<open>4\<cdot>h\<^sub>i\<cdot>h\<^sub>j\<close>; each of the four points differs from \<open>x\<close> in the
  coordinates \<open>i\<close> and \<open>j\<close> only.
\<close>

theorem calc_hess_off_diagonal:
  assumes "x < length (heap w)" and "valid_steps (length (heap w ! x)) h"
    and "xs = heap w ! x" and "hs = steps (length xs) h"
  shows "(\<exists>H w'. calc_hess f x h w = (Inr H, w')
           \<and> (\<forall>j<length xs. \<forall>i<j.
                 H ! i ! j =
                   (f (shift (shift xs i (hs ! i)) j (hs ! j))
                    - f (shift (shift xs i (hs ! i)) j (- (hs ! j)))
                    - f (shift (shift xs i (- (hs ! i))) j (hs ! j))
                    + f (shift (shift xs i (- (hs ! i))) j (- (hs ! j))))
                   / (4 * hs ! i * hs ! j)))
         \<and> (\<forall>j<length xs. \<forall>i<j. \<forall>k<length xs. \<forall>a b.
               shift (shift xs i a) j b ! k =
                 (if k = i then xs ! k + a else if k = j then xs ! k + b else xs ! k))"
proof -
  let ?H = "hess_fill f xs (map Float hs) [0..<length xs] (zeros2 (length xs) (length xs))"
  have len: "length hs = length xs"
    using length_steps [OF assms(2)] assms(3,4) by simp
  have "\<forall>j<length xs. \<forall>i<j. ?H ! i ! j =
          (f (shift (shift xs i (hs ! i)) j (hs ! j))
           - f (shift (shift xs i (hs ! i)) j (- (hs ! j)))
           - f (shift (shift xs i (- (hs ! i))) j (hs ! j))
           + f (shift (shift xs i (- (hs ! i))) j (- (hs ! j))))
          / (4 * hs ! i * hs ! j)"
    by (simp add: hess_fill_all hess_entry_float len)
  then have "\<exists>H w'. calc_hess f x h w = (Inr H, w')
           \<and> (\<forall>j<length xs. \<forall>i<j.
                 H ! i ! j =
                   (f (shift (shift xs i (hs ! i)) j (hs ! j))
                    - f (shift (shift xs i (hs ! i)) j (- (hs ! j)))
                    - f (shift (shift xs i (- (hs ! i))) j (hs ! j))
                    + f (shift (shift xs i (- (hs ! i))) j (- (hs ! j))))
                   / (4 * hs ! i * hs ! j))"
    using calc_hess_run [OF assms(1,2), of f] assms(3,4) by blast
  moreover have "\<forall>j<length xs. \<forall>i<j. \<forall>k<length xs. \<forall>a b.
               shift (shift xs i a) j b ! k =
                 (if k = i then xs ! k + a else if k = j then xs ! k + b else xs ! k)"
    by (simp add: shift_shift_nth)
  ultimately show ?thesis by blast
qed

theorem calc_hess_off_diagonal_witness:
  "0 < length (heap example_world)
   \<and> valid_steps (length (heap example_world ! 0)) (HScalar 1)
   \<and> (\<exists>H w'. calc_hess example_func 0 (HScalar 1) example_world = (Inr H, w')
         \<and> H ! 0 ! 1 = 6)"
proof -
  from calc_hess_off_diagonal
         [OF example_world_valid(1) example_steps(1) example_point example_hs,
          of example_func, THEN conjunct1]
  obtain H w' where run: "calc_hess example_func 0 (HScalar 1) example_world = (Inr H, w')"
    and off: "\<forall>j<length [3, 5 :: real]. \<forall>i<j. H ! i ! j =
                   (example_func (shift (shift [3, 5] i ([1, 1] ! i)) j ([1, 1] ! j))
                    - example_func (shift (shift [3, 5] i ([1, 1] ! i)) j (- ([1, 1] ! j)))
                    - example_func (shift (shift [3, 5] i (- ([1, 1] ! i))) j ([1, 1] ! j))
                    + example_func (shift (shift [3, 5] i (- ([1, 1] ! i))) j (- ([1, 1] ! j))))
                   / (4 * [1, 1] ! i * [1, 1] ! j)"
    by blast
  from off [rule_format, of 1 0] have "H ! 0 ! 1 = 6"
    by (simp add: shift_example example_func_def)
  with run example_world_valid(1) example_steps(1) show ?thesis by blast
qed

subsection \<open>C5\<close>

text \<open>
  \<^bold>\<open>C5\<close>. When the step sizes are a sequence whose length differs from the dimension \<open>N\<close> of
  the point, \<^verbatim>\<open>calc_hess\<close> and \<^verbatim>\<open>calc_cov\<close> both raise the dimension error, which carries
  the length of the sequence and \<open>N\<close>; the store is returned unchanged, so the objective
  function has not been evaluated. (The exception raised is Python's \<^verbatim>\<open>ValueError\<close>.) The
  same holds for a sequence of int64 of that length.
\<close>

theorem dimension_mismatch_raises:
  assumes "length hs \<noteq> length (heap w ! x)"
  shows "calc_hess f x (HArray hs) w =
           (Inl (ValueError (length hs) (length (heap w ! x))), w)
         \<and> calc_cov linv f x (HArray hs) w =
           (Inl (ValueError (length hs) (length (heap w ! x))), w)
         \<and> (\<forall>ns. length ns = length hs \<longrightarrow>
               calc_hess f x (HInt64Array ns) w =
                 (Inl (ValueError (length ns) (length (heap w ! x))), w)
               \<and> calc_cov linv f x (HInt64Array ns) w =
                 (Inl (ValueError (length ns) (length (heap w ! x))), w))"
  using assms by (simp add: calc_cov_def calc_hess_def get_x_and_h_def)

theorem dimension_mismatch_raises_witness:
  "length [1, 2, 3 :: real] \<noteq> length (heap example_world ! 0)
   \<and> calc_hess example_func 0 (HArray [1, 2, 3]) example_world =
       (Inl (ValueError 3 2), example_world)
   \<and> calc_cov inv_small example_func 0 (HArray [1, 2, 3]) example_world =
       (Inl (ValueError 3 2), example_world)
   \<and> calc_hess example_func 0 (HInt64Array [1, 2, 3]) example_world =
       (Inl (ValueError 3 2), example_world)
   \<and> calc_cov inv_small example_func 0 (HInt64Array [1, 2, 3]) example_world =
       (Inl (ValueError 3 2), example_world)"
proof -
  have ne: "length [1, 2, 3 :: real] \<noteq> length (heap example_world ! 0)"
    by (simp add: example_world_valid(2))
  note inst = dimension_mismatch_raises [OF ne, of example_func inv_small]
  have "calc_hess example_func 0 (HInt64Array [1, 2, 3]) example_world =
          (Inl (ValueError 3 2), example_world)
        \<and> calc_cov inv_small example_func 0 (HInt64Array [1, 2, 3]) example_world =
          (Inl (ValueError 3 2), example_world)"
    using inst [THEN conjunct2, THEN conjunct2, rule_format, of "[1, 2, 3]"]
    by (simp add: example_world_valid(2))
  then show ?thesis
    using inst ne by (simp add: example_world_valid(2))
qed

subsection \<open>C6\<close>

text \<open>
  \<^bold>\<open>C6\<close>. For a constant objective function, a point of dimension \<open>N \<ge> 1\<close> and nonzero step
  sizes, the Hessian is the zero matrix and \<^verbatim>\<open>calc_cov\<close> fails with the inversion routine's
  singularity error, whenever that routine refuses singular matrices. The restriction to
  \<open>N \<ge> 1\<close> is needed: at a point of dimension zero the Hessian is the empty matrix, which
  is its own inverse, and \<^verbatim>\<open>calc_cov\<close> returns it (numpy's \<^verbatim>\<open>linalg.inv\<close> returns the empty
  matrix for an empty matrix, as \<open>inv_small\<close> does).
\<close>

theorem constant_objective_singular:
  assumes "fails_on_singular linv"
    and "x < length (heap w)" and "heap w ! x \<noteq> []"
    and "valid_steps (length (heap w ! x)) h"
    and "0 \<notin> set (steps (length (heap w ! x)) h)"
  shows "\<exists>w'. calc_hess (\<lambda>_. c) x h w
                  = (Inr (zeros2 (length (heap w ! x)) (length (heap w ! x))), w')
              \<and> calc_cov linv (\<lambda>_. c) x h w = (Inl LinAlgError, w')"
proof -
  let ?n = "length (heap w ! x)"
  from assms(3) have "0 < ?n" by simp
  then have "singular (zeros2 ?n ?n)" by (rule singular_zeros2)
  with assms(1) have fail: "linv (zeros2 ?n ?n) = Inl LinAlgError"
    by (simp add: fails_on_singular_def)
  show ?thesis
    using fail by (simp add: calc_cov_def calc_hess_run [OF assms(2,4)] hess_fill_const)
qed

theorem constant_objective_singular_witness:
  "fails_on_singular inv_small
   \<and> 0 < length (heap example_world)
   \<and> heap example_world ! 0 \<noteq> []
   \<and> valid_steps (length (heap example_world ! 0)) (HScalar 1)
   \<and> 0 \<notin> set (steps (length (heap example_world ! 0)) (HScalar 1))
   \<and> (\<exists>w'. calc_hess (\<lambda>_. 7) 0 (HScalar 1) example_world = (Inr [[0, 0], [0, 0]], w')
         \<and> calc_cov inv_small (\<lambda>_. 7) 0 (HScalar 1) example_world = (Inl LinAlgError, w'))"
proof -
  have ne: "heap example_world ! 0 \<noteq> []" by (simp add: example_world_valid(3))
  have nz: "0 \<notin> set (steps (length (heap example_world ! 0)) (HScalar 1))"
    by (simp add: example_world_valid(2) example_steps(2))
  have z: "zeros2 2 2 = [[0, 0], [0, 0]]"
    by (simp add: zeros2_def numeral_2_eq_2)
  from constant_objective_singular
         [OF fails_on_singular_inv_small example_world_valid(1) ne example_steps(1) nz, of 7]
  have "\<exists>w'. calc_hess (\<lambda>_. 7) 0 (HScalar 1) example_world = (Inr [[0, 0], [0, 0]], w')
         \<and> calc_cov inv_small (\<lambda>_. 7) 0 (HScalar 1) example_world = (Inl LinAlgError, w')"
    unfolding example_world_valid(2) z .
  then show ?thesis
    using fails_on_singular_inv_small example_world_valid(1) ne example_steps(1) nz by blast
qed

theorem constant_objective_empty_point:
  "fails_on_singular inv_small
   \<and> inverse_of [] []
   \<and> returns_inverse inv_small []
   \<and> 0 < length (heap example_empty)
   \<and> valid_steps (length (heap example_empty ! 0)) (HScalar 1)
   \<and> 0 \<notin> set (steps (length (heap example_empty ! 0)) (HScalar 1))
   \<and> calc_hess (\<lambda>_. 0) 0 (HScalar 1) example_empty = (Inr [], example_empty)
   \<and> calc_cov inv_small (\<lambda>_. 0) 0 (HScalar 1) example_empty = (Inr [], example_empty)"
proof -
  have "inverse_of [] []"
    by (simp add: inverse_of_def square_def mat_mul_def identity_def)
  moreover have "returns_inverse inv_small []"
    by (simp add: returns_inverse_def inverse_of_def square_def)
  ultimately show ?thesis
    by (simp add: fails_on_singular_inv_small example_empty_def valid_steps_def steps_def
        calc_cov_def calc_hess_def get_x_and_h_def zeros2_def)
qed

subsection \<open>C7\<close>

text \<open>
  \<^bold>\<open>C7\<close>. A scalar step size should give the same result as the sequence of \<open>N\<close> copies
  of it. The code does so for a sequence of floats, and not for every sequence: the scalar
  branch of the normaliser always gives floats, the sequence branch keeps the element type,
  and on an int64 step \<^verbatim>\<open>h**2\<close> wraps. At the point \<open>(3, 5)\<close> with the objective \<open>x\<^sup>2\<cdot>y\<close>
  and the step \<open>2\<^sup>3\<^sup>2\<close>, the scalar call returns the Hessian \<open>[[10, 6], [6, 0]]\<close>; with the
  int64 sequence \<open>[2\<^sup>3\<^sup>2, 2\<^sup>3\<^sup>2]\<close> the square wraps to \<open>0\<close> and both diagonal entries are
  non-finite (stored as \<open>0\<close>).
\<close>

theorem int64_step_sequence_differs:
  "fst (calc_hess example_func 0 (HScalar 4294967296) example_world) = Inr [[10, 6], [6, 0]]
   \<and> fst (calc_hess example_func 0 (HInt64Array [4294967296, 4294967296]) example_world)
       = Inr [[0, 6], [6, 0]]
   \<and> calc_hess example_func 0 (HScalar 4294967296) example_world
       \<noteq> calc_hess example_func 0 (HInt64Array [4294967296, 4294967296]) example_world
   \<and> step_sq (Int64 4294967296) = Int64 0
   \<and> fst (calc_partial_ii NumpyScalars example_func 0 0 (Float 4294967296) example_world)
       = Inr (Finite 10)
   \<and> fst (calc_partial_ii NumpyScalars example_func 0 0 (Int64 4294967296) example_world)
       = Inr NonFinite"
proof -
  have sq: "step_sq (Int64 4294967296) = Int64 0"
    by (simp add: step_sq_def)
  have val: "step_val (Int64 4294967296) = 4294967296" "step_val (Int64 0) = 0"
    by (simp_all add: step_val_def)
  have a: "fst (calc_hess example_func 0 (HScalar 4294967296) example_world)
             = Inr [[10, 6], [6, 0]]"
    by (simp add: calc_hess_def get_x_and_h_def zeros2_def calc_partial_ii_def
        calc_partial_ij_def copy_def aset_def aget_def call_def set2_def Let_def
        truediv_def dispatch_def stored_def example_func_def example_world_def upt_rec)
  have b: "fst (calc_hess example_func 0 (HInt64Array [4294967296, 4294967296]) example_world)
             = Inr [[0, 6], [6, 0]]"
    by (simp add: calc_hess_def get_x_and_h_def zeros2_def calc_partial_ii_def
        calc_partial_ij_def copy_def aset_def aget_def call_def set2_def Let_def
        truediv_def dispatch_def stored_def example_func_def example_world_def upt_rec sq val)
  have c: "fst (calc_partial_ii NumpyScalars example_func 0 0 (Float 4294967296) example_world)
             = Inr (Finite 10)"
    by (simp add: calc_partial_ii_def copy_def aset_def aget_def call_def Let_def
        truediv_def dispatch_def example_func_def example_world_def)
  have d: "fst (calc_partial_ii NumpyScalars example_func 0 0 (Int64 4294967296) example_world)
             = Inr NonFinite"
    by (simp add: calc_partial_ii_def copy_def aset_def aget_def call_def Let_def
        truediv_def dispatch_def example_func_def example_world_def sq val)
  from a b have "calc_hess example_func 0 (HScalar 4294967296) example_world
       \<noteq> calc_hess example_func 0 (HInt64Array [4294967296, 4294967296]) example_world"
    by auto
  then have ne: "calc_hess example_func 0 (HScalar 4294967296) example_world
       \<noteq> calc_hess example_func 0 (HInt64Array [4294967296, 4294967296]) example_world" .
  show ?thesis
    by (intro conjI a b ne sq c d)
qed

subsection \<open>C8\<close>

text \<open>
  \<^bold>\<open>C8\<close>. A valid call of \<^verbatim>\<open>calc_hess\<close> evaluates the objective function exactly
  \<open>3\<cdot>N + 4\<cdot>N\<cdot>(N-1)/2\<close> times: row by row, three points for the diagonal entry (the
  second of them the unperturbed point \<open>x\<close>, evaluated again for every diagonal entry) and
  four points for every pair \<open>i < j\<close>.
\<close>

theorem calc_hess_evaluations:
  assumes "x < length (heap w)" and "valid_steps (length (heap w ! x)) h"
    and "xs = heap w ! x" and "hs = steps (length xs) h"
  shows "\<exists>H w'. calc_hess f x h w = (Inr H, w')
           \<and> calls w' = calls w @
                concat (map (\<lambda>i. concat (map (\<lambda>j.
                    if i = j then [shift xs i (hs ! i), xs, shift xs i (- (hs ! i))]
                    else [shift (shift xs i (hs ! i)) j (hs ! j),
                          shift (shift xs i (hs ! i)) j (- (hs ! j)),
                          shift (shift xs i (- (hs ! i))) j (hs ! j),
                          shift (shift xs i (- (hs ! i))) j (- (hs ! j))])
                  [i..<length xs])) [0..<length xs])
           \<and> length (calls w') =
                length (calls w) + (3 * length xs + 4 * (length xs * (length xs - 1) div 2))"
proof -
  let ?w' = "w\<lparr>heap := heap w @ hess_copies xs (map Float hs) [0..<length xs],
                calls := calls w @ hess_points xs (map Float hs) [0..<length xs]\<rparr>"
  have len: "length hs = length xs"
    using length_steps [OF assms(2)] assms(3,4) by simp
  have run: "calc_hess f x h w =
          (Inr (hess_fill f xs (map Float hs) [0..<length xs] (zeros2 (length xs) (length xs))),
           ?w')"
    using calc_hess_run [OF assms(1,2), of f] assms(3,4) by simp
  have pts: "calls ?w' = calls w @
                concat (map (\<lambda>i. concat (map (\<lambda>j.
                    if i = j then [shift xs i (hs ! i), xs, shift xs i (- (hs ! i))]
                    else [shift (shift xs i (hs ! i)) j (hs ! j),
                          shift (shift xs i (hs ! i)) j (- (hs ! j)),
                          shift (shift xs i (- (hs ! i))) j (hs ! j),
                          shift (shift xs i (- (hs ! i))) j (- (hs ! j))])
                  [i..<length xs])) [0..<length xs])"
    using hess_points_float [OF len, of "[0..<length xs]"] by simp
  have len': "length (calls ?w') =
                length (calls w) + (3 * length xs + 4 * (length xs * (length xs - 1) div 2))"
    by (simp add: length_hess_points)
  from run pts len' show ?thesis by blast
qed

theorem calc_hess_evaluations_witness:
  "0 < length (heap example_world)
   \<and> valid_steps (length (heap example_world ! 0)) (HScalar 1)
   \<and> (\<exists>H w'. calc_hess example_func 0 (HScalar 1) example_world = (Inr H, w')
         \<and> calls w' = [[4, 5], [3, 5], [2, 5], [4, 6], [4, 4], [2, 6], [2, 4],
                        [3, 6], [3, 5], [3, 4]]
         \<and> length (calls w') = 10)"
proof -
  from calc_hess_evaluations
         [OF example_world_valid(1) example_steps(1) example_point example_hs, of example_func]
  have "\<exists>H w'. calc_hess example_func 0 (HScalar 1) example_world = (Inr H, w')
         \<and> calls w' = [[4, 5], [3, 5], [2, 5], [4, 6], [4, 4], [2, 6], [2, 4],
                        [3, 6], [3, 5], [3, 4]]
         \<and> length (calls w') = 10"
    by (simp add: upt_rec shift_example example_world_def)
  then show ?thesis
    using example_world_valid(1) example_steps(1) by blast
qed

subsection \<open>C9\<close>

text \<open>
  \<^bold>\<open>C9\<close>. \<^verbatim>\<open>calc_hess\<close> and \<^verbatim>\<open>calc_cov\<close> leave the point unchanged. More generally every
  array that was in the store before the call has the same contents after it: all writes go
  to the copies allocated during the call.
\<close>

theorem point_not_mutated:
  assumes "x < length (heap w)"
  shows "take (length (heap w)) (heap (snd (calc_hess f x h w))) = heap w
         \<and> heap (snd (calc_hess f x h w)) ! x = heap w ! x
         \<and> take (length (heap w)) (heap (snd (calc_cov linv f x h w))) = heap w
         \<and> heap (snd (calc_cov linv f x h w)) ! x = heap w ! x"
proof (cases "same_dimension (length (heap w ! x)) h")
  case True
  show ?thesis
    using assms by (simp add: snd_calc_cov calc_hess_run_steps [OF assms True] nth_append)
next
  case False
  then show ?thesis
    by (simp add: snd_calc_cov calc_hess_invalid)
qed

theorem point_not_mutated_witness:
  "0 < length (heap example_world)
   \<and> heap (snd (calc_hess example_func 0 (HScalar 1) example_world)) ! 0 = [3, 5]
   \<and> heap (snd (calc_cov inv_small example_func 0 (HScalar 1) example_world)) ! 0 = [3, 5]"
  using point_not_mutated [OF example_world_valid(1), of example_func "HScalar 1" inv_small]
    example_world_valid(1)
  by (simp add: example_world_valid(3))

subsection \<open>C10\<close>




end
